theory Spec2Isabelle
  imports Complex_Main "HOL-Library.AList"
begin

section \<open>Numbers\<close>

text \<open>
  The TypeScript type \<^verbatim>\<open>number\<close> is embedded as the rationals: arithmetic is exact, so
  the model is the program read over ideal numbers (no rounding of intermediate quotients,
  no NaN, no infinities). On the inputs the theorems below are about (positive integer
  width and height) no division by zero is reached: every divisor is at least 2, every
  floored quotient is at least 2, and both GCDs are positive.

  The program rounds every operation to a double. For integer dimensions below \<open>2 ^ 53\<close>
  its integer values (the floored quotients, \<^verbatim>\<open>mod\<close>, \<^verbatim>\<open>ratio\<close>, both GCDs) are those
  of the model; \<^verbatim>\<open>range\<close> and \<^verbatim>\<open>percent\<close> can differ from the model's in the last
  place, so a candidate at the very edge of the tolerance can be kept by one and rejected
  by the other. Beyond \<open>2 ^ 53\<close> the program can reach infinities and NaN, which the
  model does not have.
\<close>

type_synonym number = rat

definition Math_floor :: "number \<Rightarrow> number" where
  "Math_floor x = of_int \<lfloor>x\<rfloor>"

text \<open>\<^verbatim>\<open>Math.round\<close> rounds to the nearest integer, a tie going up.\<close>

definition Math_round :: "number \<Rightarrow> number" where
  "Math_round x = of_int \<lfloor>x + 1 / 2\<rfloor>"

definition Math_abs :: "number \<Rightarrow> number" where
  "Math_abs x = \<bar>x\<bar>"

text \<open>
  The remainder operator \<^verbatim>\<open>%\<close>: the quotient is truncated towards zero, so the result
  has the sign of the dividend. It is only ever called with a non-zero right operand
  (\<^verbatim>\<open>getGcd\<close> tests \<^verbatim>\<open>right === 0\<close> first).
\<close>

definition js_trunc :: "number \<Rightarrow> int" where
  "js_trunc x = (if 0 \<le> x then \<lfloor>x\<rfloor> else \<lceil>x\<rceil>)"

definition js_rem :: "number \<Rightarrow> number \<Rightarrow> number" where
  "js_rem a b = a - b * of_int (js_trunc (a / b))"

section \<open>Data model\<close>

record Ratio =
  width :: number
  height :: number

text \<open>
  The anonymous object type \<^verbatim>\<open>{ width: T; height: T }\<close> of the two \<^verbatim>\<open>error\<close> fields.
\<close>

record 'a ErrorOf =
  ewidth :: 'a
  eheight :: 'a

text \<open>
  \<^verbatim>\<open>ErrorRatio\<close>, the evaluator's internal metric (fields \<^verbatim>\<open>range\<close>, \<^verbatim>\<open>percent\<close>,
  \<^verbatim>\<open>ratio\<close>, \<^verbatim>\<open>mod\<close>).
\<close>

record ErrorRatio =
  range_e :: number
  percent_e :: number
  ratio_e :: number
  mod_e :: number

text \<open>
  \<^verbatim>\<open>RatioError\<close>, the metric of a returned candidate (fields \<^verbatim>\<open>diff\<close>, \<^verbatim>\<open>percent\<close>,
  \<^verbatim>\<open>mod\<close>); \<^verbatim>\<open>toFuzzed\<close> also copies \<^verbatim>\<open>ratio\<close> into the object it builds.
\<close>

record RatioError =
  diff :: number
  percent :: number
  mod_r :: number
  ratio_r :: number

record FuzzRatio = Ratio +
  original :: Ratio
  error :: "RatioError ErrorOf"

record Result =
  ratio :: Ratio
  fuzzed :: "FuzzRatio option"
  alts :: "FuzzRatio list option"

datatype FuzzType = Percent | Range

record Options = Ratio +
  type_o :: FuzzType
  tolerance :: number
  allowedRatios :: "Ratio list option"

record AcceptableRatio = Ratio +
  div_a :: number
  error_a :: "ErrorRatio ErrorOf option"

section \<open>Helpers\<close>

function (domintros) getGcd :: "number \<Rightarrow> number \<Rightarrow> number" where
  "getGcd left right = (if right = 0 then left else getGcd right (js_rem left right))"
  by pat_completeness auto

text \<open>\<^verbatim>\<open>round\<close>: two decimal places, through \<^verbatim>\<open>Math.round\<close>.\<close>

definition round_n :: "number \<Rightarrow> number" where
  "round_n value = (let multiplier = 10 ^ 2 in Math_round (value * multiplier) / multiplier)"

text \<open>
  \<^verbatim>\<open>getDivisors\<close>, as the array its loop builds when no \<^verbatim>\<open>push\<close> fails; the loop
  with the \<^verbatim>\<open>push\<close> that can fail is \<open>getDivisors_checked\<close> below.
\<close>

definition getDivisors :: "number \<Rightarrow> number \<Rightarrow> number list" where
  "getDivisors left right =
     (let value = (if left < right then left else right);
          half = Math_floor (value / 2)
      in map of_int [2 .. \<lfloor>half\<rfloor>])"

definition getError :: "number \<Rightarrow> number \<Rightarrow> ErrorRatio" where
  "getError value divisor =
     (let original = value * divisor;
          mod_v = Math_floor value * divisor;
          ratio_v = mod_v / divisor;
          closest = (if Math_abs (mod_v - original) > Math_abs (mod_v - ratio_v - original)
                     then mod_v - ratio_v else mod_v);
          range_v = Math_abs (original - closest);
          percent_v = round_n (range_v / original * 100)
      in \<lparr>range_e = range_v, percent_e = percent_v, ratio_e = ratio_v, mod_e = mod_v\<rparr>)"

definition toFuzzed :: "'a Ratio_scheme \<Rightarrow> ErrorRatio ErrorOf \<Rightarrow> FuzzRatio" where
  "toFuzzed ratio_v error_v =
     \<lparr>width = ratio_e (ewidth error_v),
      height = ratio_e (eheight error_v),
      original = \<lparr>width = width ratio_v, height = height ratio_v\<rparr>,
      error = \<lparr>ewidth = \<lparr>diff = range_e (ewidth error_v),
                         percent = percent_e (ewidth error_v),
                         mod_r = mod_e (ewidth error_v),
                         ratio_r = ratio_e (ewidth error_v)\<rparr>,
               eheight = \<lparr>diff = range_e (eheight error_v),
                          percent = percent_e (eheight error_v),
                          mod_r = mod_e (eheight error_v),
                          ratio_r = ratio_e (eheight error_v)\<rparr>\<rparr>\<rparr>"

section \<open>fuzzRatio\<close>

text \<open>The stages of \<^verbatim>\<open>fuzzRatio\<close>, each named after the local it computes.\<close>

definition ratios :: "Options \<Rightarrow> AcceptableRatio list" where
  "ratios options =
     map (\<lambda>d. \<lparr>width = width options / d, height = height options / d,
               div_a = d, error_a = None\<rparr>)
         (getDivisors (width options) (height options))"

definition isExact :: "AcceptableRatio \<Rightarrow> bool" where
  "isExact ratio_v \<longleftrightarrow>
     height ratio_v = Math_round (height ratio_v) \<and> width ratio_v = Math_round (width ratio_v)"

text \<open>
  The error pair of one candidate, after the joint re-reduction of its two
  \<^verbatim>\<open>ratio\<close> fields by \<^verbatim>\<open>nextGcd\<close>.
\<close>

definition reducedError :: "AcceptableRatio \<Rightarrow> ErrorRatio ErrorOf" where
  "reducedError ratio_v =
     (let ew = getError (width ratio_v) (div_a ratio_v);
          eh = getError (height ratio_v) (div_a ratio_v);
          nextGcd = getGcd (ratio_e ew) (ratio_e eh)
      in \<lparr>ewidth = ew\<lparr>ratio_e := ratio_e ew / nextGcd\<rparr>,
          eheight = eh\<lparr>ratio_e := ratio_e eh / nextGcd\<rparr>\<rparr>)"

definition withinTolerance :: "Options \<Rightarrow> ErrorRatio ErrorOf \<Rightarrow> bool" where
  "withinTolerance options error_v =
     (case type_o options of
        Percent \<Rightarrow> percent_e (ewidth error_v) \<le> tolerance options
                    \<and> percent_e (eheight error_v) \<le> tolerance options
      | Range \<Rightarrow> range_e (ewidth error_v) \<le> tolerance options
                  \<and> range_e (eheight error_v) \<le> tolerance options)"

text \<open>One pass of the loop over \<^verbatim>\<open>ratios\<close>: up to two pushes.\<close>

definition pushAcceptable ::
  "Options \<Rightarrow> AcceptableRatio list \<Rightarrow> AcceptableRatio \<Rightarrow> AcceptableRatio list" where
  "pushAcceptable options acc ratio_v =
     (let acc1 = (if isExact ratio_v then acc @ [ratio_v] else acc);
          error_v = reducedError ratio_v
      in if withinTolerance options error_v
         then acc1 @ [ratio_v\<lparr>error_a := Some error_v\<rparr>] else acc1)"

definition acceptableRatios :: "Options \<Rightarrow> AcceptableRatio list" where
  "acceptableRatios options = foldl (pushAcceptable options) [] (ratios options)"

text \<open>
  The effective pair of a candidate: the error-ratio pair when it has an error metric,
  its raw width and height otherwise.
\<close>

definition effective :: "AcceptableRatio \<Rightarrow> number \<times> number" where
  "effective ratio_v =
     (case error_a ratio_v of
        Some e \<Rightarrow> (ratio_e (ewidth e), ratio_e (eheight e))
      | None \<Rightarrow> (width ratio_v, height ratio_v))"

definition isAllowed :: "Options \<Rightarrow> AcceptableRatio \<Rightarrow> bool" where
  "isAllowed options ratio_v =
     (case allowedRatios options of
        None \<Rightarrow> True
      | Some allowed \<Rightarrow>
          div_a ratio_v = 1
          \<or> list_ex (\<lambda>a. width a = fst (effective ratio_v)
                          \<and> height a = snd (effective ratio_v)) allowed)"

definition allowedCandidates :: "Options \<Rightarrow> AcceptableRatio list" where
  "allowedCandidates options = filter (isAllowed options) (acceptableRatios options)"

text \<open>
  The comparator orders by the sum of the effective pair and returns 0 on equal sums;
  \<^verbatim>\<open>Array.prototype.sort\<close> is stable, and so is \<^const>\<open>sort_key\<close>.
\<close>

definition cost :: "AcceptableRatio \<Rightarrow> number" where
  "cost ratio_v = fst (effective ratio_v) + snd (effective ratio_v)"

definition sortedCandidates :: "Options \<Rightarrow> AcceptableRatio list" where
  "sortedCandidates options = sort_key cost (allowedCandidates options)"

text \<open>
  The \<^verbatim>\<open>alts\<close> map, in insertion order. Its key is the template string
  \<^verbatim>\<open>width:height\<close> of the fuzzed pair, a function of that pair that tells distinct
  pairs apart; the model keys the map by the pair itself. \<^verbatim>\<open>Map.set\<close> replaces the value
  of a key that is present, in place, and appends a new key: \<^const>\<open>AList.update\<close>.
\<close>

type_synonym altsMap = "((number \<times> number) \<times> FuzzRatio) list"

definition combinedPercent :: "FuzzRatio \<Rightarrow> number" where
  "combinedPercent f = percent (ewidth (error f)) + percent (eheight (error f))"

definition altsStep :: "altsMap \<Rightarrow> AcceptableRatio \<Rightarrow> altsMap" where
  "altsStep m ratio_v =
     (case error_a ratio_v of
        None \<Rightarrow> m
      | Some error_v \<Rightarrow>
          (let fz = toFuzzed ratio_v error_v;
               id_v = (width fz, height fz)
           in case map_of m id_v of
                None \<Rightarrow> AList.update id_v fz m
              | Some existing \<Rightarrow>
                  (let existingDiff = combinedPercent existing;
                       newDiff = percent_e (ewidth error_v) + percent_e (eheight error_v)
                   in if newDiff < existingDiff then AList.update id_v fz m else m)))"

definition altsLoop :: "AcceptableRatio list \<Rightarrow> altsMap" where
  "altsLoop rest = foldl altsStep [] rest"

definition fuzzRatio :: "Options \<Rightarrow> Result" where
  "fuzzRatio options =
     (let sorted_v = sortedCandidates options;
          unfuzzedDiv = getGcd (width options) (height options);
          ratio_v = \<lparr>width = width options / unfuzzedDiv,
                     height = height options / unfuzzedDiv\<rparr>
      in case sorted_v of
           [] \<Rightarrow> \<lparr>ratio = ratio_v, fuzzed = None, alts = None\<rparr>
         | fz # rest \<Rightarrow>
             \<lparr>ratio = ratio_v,
              fuzzed = (case error_a fz of
                          Some e \<Rightarrow> Some (toFuzzed fz e)
                        | None \<Rightarrow> None),
              alts = Some (map snd (altsLoop rest))\<rparr>)"

text \<open>The candidates a result surfaces: \<^verbatim>\<open>fuzzed\<close>, then the entries of \<^verbatim>\<open>alts\<close>.\<close>

definition surfaced :: "Result \<Rightarrow> FuzzRatio list" where
  "surfaced res =
     (case fuzzed res of None \<Rightarrow> [] | Some f \<Rightarrow> [f])
     @ (case alts res of None \<Rightarrow> [] | Some xs \<Rightarrow> xs)"

section \<open>The run with its array limit\<close>

text \<open>
  An array holds a bounded number of elements: the language allows at most \<open>2 ^ 32 - 1\<close>,
  an engine may allow fewer, and \<^verbatim>\<open>push\<close> on a full array raises \<^verbatim>\<open>RangeError\<close>. The
  definitions above give the arrays the program builds when no \<^verbatim>\<open>push\<close> fails. The ones
  below are the two loops that push, with the limit as a parameter and the failure as a
  value; what follows the second loop (filter, sort, slice, the \<^verbatim>\<open>alts\<close> map) makes no
  array longer than \<^verbatim>\<open>acceptableRatios\<close> and is repeated as it is.
\<close>

datatype error = RangeError

definition push :: "nat \<Rightarrow> 'a list \<Rightarrow> 'a \<Rightarrow> error + 'a list" where
  "push limit xs x = (if length xs < limit then Inr (xs @ [x]) else Inl RangeError)"

function divisorsLoop :: "nat \<Rightarrow> int \<Rightarrow> int \<Rightarrow> number list \<Rightarrow> error + number list" where
  "divisorsLoop limit i half divs =
     (if i \<le> half
      then (case push limit divs (of_int i) of
              Inl e \<Rightarrow> Inl e
            | Inr divs' \<Rightarrow> divisorsLoop limit (i + 1) half divs')
      else Inr divs)"
  by pat_completeness auto

definition getDivisors_checked :: "nat \<Rightarrow> number \<Rightarrow> number \<Rightarrow> error + number list" where
  "getDivisors_checked limit left right =
     (let value = (if left < right then left else right);
          half = Math_floor (value / 2)
      in divisorsLoop limit 2 \<lfloor>half\<rfloor> [])"

definition pushAcceptable_checked ::
  "nat \<Rightarrow> Options \<Rightarrow> AcceptableRatio list \<Rightarrow> AcceptableRatio
   \<Rightarrow> error + AcceptableRatio list" where
  "pushAcceptable_checked limit options acc ratio_v =
     (case (if isExact ratio_v then push limit acc ratio_v else Inr acc) of
        Inl e \<Rightarrow> Inl e
      | Inr acc1 \<Rightarrow>
          (let error_v = reducedError ratio_v
           in if withinTolerance options error_v
              then push limit acc1 (ratio_v\<lparr>error_a := Some error_v\<rparr>) else Inr acc1))"

fun acceptableLoop ::
  "nat \<Rightarrow> Options \<Rightarrow> AcceptableRatio list \<Rightarrow> AcceptableRatio list
   \<Rightarrow> error + AcceptableRatio list" where
  "acceptableLoop limit options acc [] = Inr acc"
| "acceptableLoop limit options acc (ratio_v # rest) =
     (case pushAcceptable_checked limit options acc ratio_v of
        Inl e \<Rightarrow> Inl e
      | Inr acc' \<Rightarrow> acceptableLoop limit options acc' rest)"

definition fuzzRatio_checked :: "nat \<Rightarrow> Options \<Rightarrow> error + Result" where
  "fuzzRatio_checked limit options =
     (case getDivisors_checked limit (width options) (height options) of
        Inl e \<Rightarrow> Inl e
      | Inr divs \<Rightarrow>
          (let ratios_v = map (\<lambda>d. \<lparr>width = width options / d, height = height options / d,
                                     div_a = d, error_a = None\<rparr>) divs
           in case acceptableLoop limit options [] ratios_v of
                Inl e \<Rightarrow> Inl e
              | Inr acceptable \<Rightarrow>
                  (let sorted_v = sort_key cost (filter (isAllowed options) acceptable);
                       unfuzzedDiv = getGcd (width options) (height options);
                       ratio_v = \<lparr>width = width options / unfuzzedDiv,
                                  height = height options / unfuzzedDiv\<rparr>
                   in Inr (case sorted_v of
                             [] \<Rightarrow> \<lparr>ratio = ratio_v, fuzzed = None, alts = None\<rparr>
                           | fz # rest \<Rightarrow>
                               \<lparr>ratio = ratio_v,
                                fuzzed = (case error_a fz of
                                            Some e \<Rightarrow> Some (toFuzzed fz e)
                                          | None \<Rightarrow> None),
                                alts = Some (map snd (altsLoop rest))\<rparr>))))"

section \<open>Sample values\<close>

text \<open>
  A 13 by 9 image, within one pixel or within twelve percent: the best candidate is 3:2,
  from the divisor 2.
\<close>

definition f139 :: FuzzRatio where
  "f139 = \<lparr>width = 3, height = 2, original = \<lparr>width = 13 / 2, height = 9 / 2\<rparr>,
           error = \<lparr>ewidth = \<lparr>diff = 1, percent = 769 / 100, mod_r = 12, ratio_r = 3\<rparr>,
                    eheight = \<lparr>diff = 1, percent = 1111 / 100, mod_r = 8, ratio_r = 2\<rparr>\<rparr>\<rparr>"

text \<open>
  A 14 by 14 image, within two pixels: after the winner (divisor 2), the divisors 3, 4, 6
  and 7 all give the pair 1:1; the entry of divisor 7 has no error.
\<close>

definition c14_3 :: AcceptableRatio where
  "c14_3 = \<lparr>width = 14 / 3, height = 14 / 3, div_a = 3,
            error_a = Some \<lparr>ewidth = \<lparr>range_e = 2, percent_e = 1429 / 100, ratio_e = 1,
                                      mod_e = 12\<rparr>,
                            eheight = \<lparr>range_e = 2, percent_e = 1429 / 100, ratio_e = 1,
                                       mod_e = 12\<rparr>\<rparr>\<rparr>"

definition f14_7 :: FuzzRatio where
  "f14_7 = \<lparr>width = 1, height = 1, original = \<lparr>width = 2, height = 2\<rparr>,
            error = \<lparr>ewidth = \<lparr>diff = 0, percent = 0, mod_r = 14, ratio_r = 1\<rparr>,
                     eheight = \<lparr>diff = 0, percent = 0, mod_r = 14, ratio_r = 1\<rparr>\<rparr>\<rparr>"

text \<open>The candidate of divisor 4 of a 796 by 1134 image.\<close>

definition c796_4 :: AcceptableRatio where
  "c796_4 = \<lparr>width = 199, height = 567 / 2, div_a = 4,
             error_a = Some \<lparr>ewidth = \<lparr>range_e = 0, percent_e = 0, ratio_e = 199,
                                       mod_e = 796\<rparr>,
                             eheight = \<lparr>range_e = 2, percent_e = 9 / 50, ratio_e = 283,
                                        mod_e = 1132\<rparr>\<rparr>\<rparr>"

section \<open>Termination of getGcd\<close>

lemma js_trunc_close: "\<bar>x - of_int (js_trunc x)\<bar> < 1"
  unfolding js_trunc_def by (auto; linarith)

lemma js_rem_scale:
  assumes "u \<noteq> 0"
  shows "js_rem (of_int m * u) (of_int n * u)
         = of_int (m - n * js_trunc (of_int m / of_int n)) * u"
  using assms by (simp add: js_rem_def algebra_simps)

lemma js_rem_int_bound:
  assumes "n \<noteq> 0"
  shows "\<bar>m - n * js_trunc (of_int m / of_int n)\<bar> < \<bar>n\<bar>"
proof -
  let ?q = "(of_int m / of_int n) :: rat"
  have "(of_int (m - n * js_trunc ?q) :: rat) = of_int n * (?q - of_int (js_trunc ?q))"
    using assms by (simp add: algebra_simps)
  then have "\<bar>of_int (m - n * js_trunc ?q) :: rat\<bar>
             = \<bar>of_int n\<bar> * \<bar>?q - of_int (js_trunc ?q)\<bar>"
    by (simp add: abs_mult)
  also have "\<dots> < \<bar>of_int n\<bar> * 1"
    using assms js_trunc_close[of ?q] by (intro mult_strict_left_mono) auto
  finally have "(of_int \<bar>m - n * js_trunc ?q\<bar> :: rat) < of_int \<bar>n\<bar>" by simp
  then show ?thesis by (simp only: of_int_less_iff)
qed

text \<open>
  Two rationals are integer multiples of a common unit \<open>u\<close>; the remainder step keeps
  the unit and makes the second multiple smaller in absolute value.
\<close>

lemma getGcd_dom_scaled:
  assumes "u \<noteq> 0"
  shows "getGcd_dom (of_int m * u, of_int n * u)"
proof (induction "nat \<bar>n\<bar>" arbitrary: m n rule: less_induct)
  case less
  show ?case
  proof (rule getGcd.domintros)
    assume nz: "of_int n * u \<noteq> 0"
    then have n0: "n \<noteq> 0" by auto
    let ?r = "m - n * js_trunc (of_int m / of_int n)"
    have "nat \<bar>?r\<bar> < nat \<bar>n\<bar>" using js_rem_int_bound[OF n0, of m] by simp
    from less[OF this, of n]
    show "getGcd_dom (of_int n * u, js_rem (of_int m * u) (of_int n * u))"
      by (simp add: js_rem_scale[OF assms])
  qed
qed

lemma getGcd_dom_all: "getGcd_dom (a, b)"
proof -
  obtain p q where pq: "quotient_of a = (p, q)" by (cases "quotient_of a")
  obtain r s where rs: "quotient_of b = (r, s)" by (cases "quotient_of b")
  have q: "q > 0" and s: "s > 0" using quotient_of_denom_pos pq rs by blast+
  let ?u = "1 / of_int (q * s) :: rat"
  have u: "?u \<noteq> 0" using q s by simp
  have "a = of_int (p * s) * ?u" using quotient_of_div[OF pq] q s by simp
  moreover have "b = of_int (r * q) * ?u" using quotient_of_div[OF rs] q s by simp
  ultimately show ?thesis using getGcd_dom_scaled[OF u, of "p * s" "r * q"] by simp
qed

termination getGcd
  using getGcd_dom_all by auto

declare getGcd.simps [simp del]

text \<open>The divisor loop ends: the distance from \<open>i\<close> to \<open>half\<close> shrinks.\<close>

termination divisorsLoop
  by (relation "measure (\<lambda>(limit, i, half, divs). nat (half - i + 1))") auto

declare divisorsLoop.simps [simp del]

section \<open>Properties of the helpers\<close>

subsection \<open>Arithmetic on natural numbers\<close>

lemma of_nat_sub_div: "(of_nat a :: rat) - of_nat b * of_nat (a div b) = of_nat (a mod b)"
proof -
  have "(of_nat (b * (a div b) + a mod b) :: rat) = of_nat a"
    by (rule arg_cong[where f = of_nat]) simp
  then have "(of_nat b * of_nat (a div b) + of_nat (a mod b) :: rat) = of_nat a"
    by (simp only: of_nat_add of_nat_mult)
  then show ?thesis by linarith
qed

lemma js_rem_of_nat:
  assumes "0 < b"
  shows "js_rem (of_nat a) (of_nat b) = of_nat (a mod b)"
proof -
  have "js_trunc (of_nat a / of_nat b) = int (a div b)"
    by (simp add: js_trunc_def floor_divide_of_nat_eq)
  then have "js_rem (of_nat a) (of_nat b) = (of_nat a :: rat) - of_nat b * of_nat (a div b)"
    by (simp add: js_rem_def)
  also have "\<dots> = of_nat (a mod b)" by (rule of_nat_sub_div)
  finally show ?thesis .
qed

lemma getGcd_of_nat: "getGcd (of_nat a) (of_nat b) = of_nat (gcd a b)"
proof (induction a b rule: gcd_nat.induct)
  case (1 m n)
  show ?case
  proof (cases "n = 0")
    case True
    then show ?thesis by (simp add: getGcd.simps)
  next
    case False
    then have "getGcd (of_nat m) (of_nat n) = getGcd (of_nat n) (of_nat (m mod n))"
      by (subst getGcd.simps) (simp add: js_rem_of_nat)
    also have "\<dots> = of_nat (gcd n (m mod n))" using 1 False by simp
    also have "gcd n (m mod n) = gcd m n" by (metis gcd.commute gcd_red_nat)
    finally show ?thesis .
  qed
qed

lemma of_nat_div_exact:
  assumes "d dvd n" "d \<noteq> 0"
  shows "(of_nat n :: rat) / of_nat d = of_nat (n div d)"
proof -
  from assms obtain k where "n = d * k" by (auto simp: dvd_def)
  with assms show ?thesis by simp
qed

lemma Math_floor_div_of_nat: "Math_floor (of_nat w / of_nat d) = of_nat (w div d)"
  by (simp add: Math_floor_def floor_divide_of_nat_eq)

lemma getError_of_nat:
  assumes "0 < d"
  shows "getError (of_nat w / of_nat d) (of_nat d) =
           \<lparr>range_e = of_nat (w mod d),
            percent_e = round_n (of_nat (w mod d) / of_nat w * 100),
            ratio_e = of_nat (w div d),
            mod_e = of_nat (w div d * d)\<rparr>"
proof -
  have orig: "(of_nat w / of_nat d) * (of_nat d :: rat) = of_nat w" using assms by simp
  have rat: "(of_nat (w div d) * of_nat d) / (of_nat d :: rat) = of_nat (w div d)"
    using assms by simp
  have le: "(of_nat (w div d) * of_nat d :: rat) \<le> of_nat w"
    unfolding of_nat_mult[symmetric] of_nat_le_iff by simp
  have diff: "(of_nat w :: rat) - of_nat (w div d) * of_nat d = of_nat (w mod d)"
    using of_nat_sub_div[of w d] by (simp add: mult.commute)
  have a1: "Math_abs (of_nat (w div d) * of_nat d - of_nat w) = of_nat (w mod d)"
    using le diff by (simp add: Math_abs_def abs_if)
  have a2: "Math_abs (of_nat (w div d) * of_nat d - of_nat (w div d) - of_nat w)
            = of_nat (w mod d) + of_nat (w div d)"
  proof -
    have "(of_nat (w div d) * of_nat d - of_nat (w div d) - of_nat w :: rat)
          = - (of_nat (w mod d) + of_nat (w div d))"
      using diff by (simp add: algebra_simps)
    moreover have "(0::rat) \<le> of_nat (w mod d) + of_nat (w div d)" by simp
    ultimately show ?thesis unfolding Math_abs_def by (simp only: abs_minus abs_of_nonneg)
  qed
  have a3: "Math_abs (of_nat w - of_nat (w div d) * of_nat d) = of_nat (w mod d)"
    using diff by (simp add: Math_abs_def)
  show ?thesis
    unfolding getError_def Let_def orig Math_floor_div_of_nat rat a1 a2
    by (simp add: a3)
qed

subsection \<open>The candidate loop\<close>

lemma pushAcceptable_append:
  "pushAcceptable options acc r = acc @ pushAcceptable options [] r"
  by (simp add: pushAcceptable_def Let_def)

lemma foldl_pushAcceptable:
  "foldl (pushAcceptable options) acc rs = acc @ concat (map (pushAcceptable options []) rs)"
proof (induction rs arbitrary: acc)
  case Nil
  show ?case by simp
next
  case (Cons r rs)
  show ?case
    by (simp add: Cons.IH[of "pushAcceptable options acc r"])
       (subst pushAcceptable_append, simp)
qed

lemma acceptableRatios_concat:
  "acceptableRatios options = concat (map (pushAcceptable options []) (ratios options))"
  by (simp add: acceptableRatios_def foldl_pushAcceptable)

lemma in_pushAcceptable:
  "c \<in> set (pushAcceptable options [] r) \<longleftrightarrow>
     (c = r \<and> isExact r)
     \<or> (c = r\<lparr>error_a := Some (reducedError r)\<rparr> \<and> withinTolerance options (reducedError r))"
  by (auto simp: pushAcceptable_def Let_def)

lemma in_acceptableRatios:
  "c \<in> set (acceptableRatios options) \<longleftrightarrow>
     (\<exists>r \<in> set (ratios options).
        (c = r \<and> isExact r)
        \<or> (c = r\<lparr>error_a := Some (reducedError r)\<rparr>
            \<and> withinTolerance options (reducedError r)))"
  by (simp add: acceptableRatios_concat in_pushAcceptable)

lemma ratios_no_error: "r \<in> set (ratios options) \<Longrightarrow> error_a r = None"
  by (auto simp: ratios_def)

lemma set_sortedCandidates:
  "set (sortedCandidates options)
   = {c \<in> set (acceptableRatios options). isAllowed options c}"
  by (simp add: sortedCandidates_def allowedCandidates_def)

text \<open>An error-bearing candidate of the ranked list comes from one divisor.\<close>

lemma sorted_error_origin:
  assumes "c \<in> set (sortedCandidates options)" "error_a c = Some e"
  shows "\<exists>r \<in> set (ratios options).
           c = r\<lparr>error_a := Some e\<rparr> \<and> e = reducedError r
           \<and> withinTolerance options e \<and> isAllowed options c"
proof -
  from assms(1) have acc: "c \<in> set (acceptableRatios options)" and al: "isAllowed options c"
    by (simp_all add: set_sortedCandidates)
  from acc obtain r where r: "r \<in> set (ratios options)"
    and cases: "(c = r \<and> isExact r)
        \<or> (c = r\<lparr>error_a := Some (reducedError r)\<rparr>
            \<and> withinTolerance options (reducedError r))"
    by (auto simp: in_acceptableRatios)
  from cases assms(2) ratios_no_error[OF r]
  have "c = r\<lparr>error_a := Some (reducedError r)\<rparr>" "withinTolerance options (reducedError r)"
    by auto
  moreover from this(1) assms(2) have "e = reducedError r" by simp
  ultimately show ?thesis using r al by blast
qed

subsection \<open>The alts loop\<close>

lemma set_AList_update_subset: "set (AList.update k v m) \<subseteq> insert (k, v) (set m)"
  by (induction m) auto

lemma altsStep_values:
  assumes "(k, f) \<in> set (altsStep m c)"
  shows "(k, f) \<in> set m
         \<or> (\<exists>e. error_a c = Some e \<and> f = toFuzzed c e \<and> k = (width f, height f))"
proof (cases "error_a c")
  case None
  with assms show ?thesis by (simp add: altsStep_def)
next
  case (Some e)
  let ?fz = "toFuzzed c e"
  let ?id = "(width ?fz, height ?fz)"
  have "set (altsStep m c) \<subseteq> set m \<union> {(?id, ?fz)}"
    using set_AList_update_subset[of ?id ?fz m]
    by (auto simp: altsStep_def Some Let_def split: option.splits)
  with assms Some show ?thesis by auto
qed

lemma altsStep_distinct:
  "distinct (map fst m) \<Longrightarrow> distinct (map fst (altsStep m c))"
  by (auto simp: altsStep_def Let_def AList.distinct_update split: option.splits)

lemma foldl_altsStep_distinct:
  "distinct (map fst m) \<Longrightarrow> distinct (map fst (foldl altsStep m cs))"
  by (induction cs arbitrary: m) (simp_all add: altsStep_distinct)

lemma foldl_altsStep_values:
  assumes "(k, f) \<in> set (foldl altsStep m cs)"
  shows "(k, f) \<in> set m
         \<or> (\<exists>c \<in> set cs. \<exists>e. error_a c = Some e \<and> f = toFuzzed c e
                \<and> k = (width f, height f))"
  using assms
proof (induction cs arbitrary: m)
  case Nil
  then show ?case by simp
next
  case (Cons c cs)
  from Cons.IH[of "altsStep m c"] Cons.prems
  consider "(k, f) \<in> set (altsStep m c)"
    | "\<exists>c \<in> set cs. \<exists>e. error_a c = Some e \<and> f = toFuzzed c e \<and> k = (width f, height f)"
    by auto
  then show ?case
  proof cases
    case 1
    from altsStep_values[OF this] show ?thesis by auto
  next
    case 2
    then show ?thesis by auto
  qed
qed

lemma combinedPercent_toFuzzed:
  "combinedPercent (toFuzzed c e) = percent_e (ewidth e) + percent_e (eheight e)"
  by (simp add: combinedPercent_def toFuzzed_def)

text \<open>A key that is present stays present, and its combined error never grows.\<close>

lemma altsStep_mono:
  assumes "map_of m k = Some f"
  shows "\<exists>f'. map_of (altsStep m c) k = Some f' \<and> combinedPercent f' \<le> combinedPercent f"
proof (cases "error_a c")
  case None
  with assms show ?thesis by (simp add: altsStep_def)
next
  case (Some e)
  let ?fz = "toFuzzed c e"
  let ?id = "(width ?fz, height ?fz)"
  show ?thesis
  proof (cases "k = ?id")
    case False
    with assms show ?thesis
      by (auto simp: altsStep_def Some Let_def AList.update_conv' split: option.splits)
  next
    case True
    with assms show ?thesis
      by (auto simp: altsStep_def Some Let_def AList.update_conv' combinedPercent_toFuzzed)
  qed
qed

lemma altsStep_covers:
  assumes "error_a c = Some e"
  shows "\<exists>f'. map_of (altsStep m c) (width (toFuzzed c e), height (toFuzzed c e)) = Some f'
              \<and> combinedPercent f' \<le> combinedPercent (toFuzzed c e)"
  using assms
  by (auto simp: altsStep_def Let_def AList.update_conv' combinedPercent_toFuzzed
           split: option.splits)

lemma foldl_altsStep_mono:
  assumes "map_of m k = Some f"
  shows "\<exists>f'. map_of (foldl altsStep m cs) k = Some f'
              \<and> combinedPercent f' \<le> combinedPercent f"
  using assms
proof (induction cs arbitrary: m f)
  case Nil
  then show ?case by simp
next
  case (Cons c cs)
  from altsStep_mono[OF Cons.prems, of c] obtain f1
    where f1: "map_of (altsStep m c) k = Some f1" "combinedPercent f1 \<le> combinedPercent f"
    by blast
  from Cons.IH[OF f1(1)] obtain f2
    where "map_of (foldl altsStep (altsStep m c) cs) k = Some f2"
          "combinedPercent f2 \<le> combinedPercent f1"
    by blast
  with f1(2) show ?case by auto
qed

lemma foldl_altsStep_covers:
  assumes "c \<in> set cs" "error_a c = Some e"
  shows "\<exists>f'. map_of (foldl altsStep m cs) (width (toFuzzed c e), height (toFuzzed c e))
                = Some f'
              \<and> combinedPercent f' \<le> combinedPercent (toFuzzed c e)"
  using assms(1)
proof (induction cs arbitrary: m)
  case Nil
  then show ?case by simp
next
  case (Cons x cs)
  show ?case
  proof (cases "c \<in> set cs")
    case True
    from Cons.IH[OF this] show ?thesis by simp
  next
    case False
    with Cons.prems have x: "x = c" by simp
    from altsStep_covers[OF assms(2), of m] obtain f1
      where f1: "map_of (altsStep m c) (width (toFuzzed c e), height (toFuzzed c e)) = Some f1"
                "combinedPercent f1 \<le> combinedPercent (toFuzzed c e)"
      by blast
    from foldl_altsStep_mono[OF f1(1), of cs] f1(2) x show ?thesis by auto
  qed
qed

subsection \<open>Where a surfaced candidate comes from\<close>

lemma altsLoop_values:
  assumes "f \<in> set (map snd (altsLoop cs))"
  shows "\<exists>c \<in> set cs. \<exists>e. error_a c = Some e \<and> f = toFuzzed c e"
proof -
  from assms obtain k where "(k, f) \<in> set (foldl altsStep [] cs)"
    by (auto simp: altsLoop_def)
  from foldl_altsStep_values[OF this] show ?thesis by auto
qed

lemma surfaced_origin:
  assumes "f \<in> set (surfaced (fuzzRatio options))"
  shows "\<exists>c \<in> set (sortedCandidates options). \<exists>e. error_a c = Some e \<and> f = toFuzzed c e"
proof (cases "sortedCandidates options")
  case Nil
  with assms show ?thesis by (simp add: surfaced_def fuzzRatio_def Let_def)
next
  case (Cons fz rest)
  from assms Cons
  consider "\<exists>e. error_a fz = Some e \<and> f = toFuzzed fz e" | "f \<in> set (map snd (altsLoop rest))"
    by (auto simp: surfaced_def fuzzRatio_def Let_def split: option.splits)
  then show ?thesis
  proof cases
    case 1
    with Cons show ?thesis by auto
  next
    case 2
    from altsLoop_values[OF this] Cons show ?thesis by auto
  qed
qed

lemma surfaced_from_divisor:
  assumes "f \<in> set (surfaced (fuzzRatio options))"
  shows "\<exists>r \<in> set (ratios options).
           f = toFuzzed r (reducedError r)
           \<and> withinTolerance options (reducedError r)
           \<and> isAllowed options (r\<lparr>error_a := Some (reducedError r)\<rparr>)
           \<and> r\<lparr>error_a := Some (reducedError r)\<rparr> \<in> set (sortedCandidates options)"
proof -
  from surfaced_origin[OF assms] obtain c e
    where c: "c \<in> set (sortedCandidates options)" "error_a c = Some e" "f = toFuzzed c e"
    by blast
  from sorted_error_origin[OF c(1,2)] obtain r
    where r: "r \<in> set (ratios options)" "c = r\<lparr>error_a := Some e\<rparr>" "e = reducedError r"
             "withinTolerance options e" "isAllowed options c"
    by blast
  have "toFuzzed c e = toFuzzed r e" using r(2) by (simp add: toFuzzed_def)
  with c r show ?thesis by auto
qed

lemma surfaced_within_tolerance:
  assumes "f \<in> set (surfaced (fuzzRatio options))"
  shows "case type_o options of
           Percent \<Rightarrow> percent (ewidth (error f)) \<le> tolerance options
                       \<and> percent (eheight (error f)) \<le> tolerance options
         | Range \<Rightarrow> diff (ewidth (error f)) \<le> tolerance options
                     \<and> diff (eheight (error f)) \<le> tolerance options"
proof -
  from surfaced_from_divisor[OF assms] obtain r
    where "f = toFuzzed r (reducedError r)" "withinTolerance options (reducedError r)"
    by blast
  then show ?thesis
    by (simp add: withinTolerance_def toFuzzed_def split: FuzzType.splits)
qed

subsection \<open>Divisors and candidates on positive integers\<close>

lemma getDivisors_eq:
  "getDivisors left right = map of_int [2 .. \<lfloor>min left right / 2\<rfloor>]"
  by (simp add: getDivisors_def Let_def Math_floor_def min_def)

lemma in_ratios_of_nat:
  assumes "width options = of_nat w" "height options = of_nat h"
    and "r \<in> set (ratios options)"
  shows "\<exists>k. 2 \<le> k \<and> 2 * k \<le> w \<and> 2 * k \<le> h
             \<and> r = \<lparr>width = of_nat w / of_nat k, height = of_nat h / of_nat k,
                     div_a = of_nat k, error_a = None\<rparr>"
proof -
  from assms(3) obtain d :: int
    where d: "2 \<le> d" "d \<le> \<lfloor>min (width options) (height options) / 2\<rfloor>"
      and r: "r = \<lparr>width = width options / of_int d, height = height options / of_int d,
                    div_a = of_int d, error_a = None\<rparr>"
    by (auto simp: ratios_def getDivisors_eq)
  have "min (width options) (height options) = of_nat (min w h)"
    using assms(1,2) by (simp add: min_def)
  then have "\<lfloor>min (width options) (height options) / 2\<rfloor> = int (min w h div 2)"
    using floor_divide_of_nat_eq[of "min w h" 2, where ?'a = rat] by simp
  with d have le: "d \<le> int (min w h div 2)" by simp
  define k where "k = nat d"
  have dk: "d = int k" using d(1) by (simp add: k_def)
  have "k \<le> min w h div 2" using le dk by simp
  then have "2 * k \<le> w" "2 * k \<le> h" by linarith+
  moreover have "2 \<le> k" using d(1) dk by simp
  moreover have "(of_int d :: rat) = of_nat k" using dk by simp
  ultimately show ?thesis using r assms(1,2) by auto
qed

lemma reducedError_ratio_of_nat:
  assumes "2 \<le> k" "2 * k \<le> w" "2 * k \<le> h"
    and "r = \<lparr>width = of_nat w / of_nat k, height = of_nat h / of_nat k,
              div_a = of_nat k, error_a = None\<rparr>"
  shows "ratio_e (ewidth (reducedError r))
           = of_nat ((w div k) div gcd (w div k) (h div k))"
    and "ratio_e (eheight (reducedError r))
           = of_nat ((h div k) div gcd (w div k) (h div k))"
    and "gcd (w div k) (h div k) \<noteq> 0"
proof -
  have k: "0 < k" using assms(1) by simp
  have "1 * k \<le> w" using assms(1,2) by simp
  then have "1 \<le> w div k" using k by (simp add: less_eq_div_iff_mult_less_eq)
  then show g: "gcd (w div k) (h div k) \<noteq> 0" by simp
  have ew: "ratio_e (getError (of_nat w / of_nat k) (of_nat k)) = of_nat (w div k)"
    and eh: "ratio_e (getError (of_nat h / of_nat k) (of_nat k)) = of_nat (h div k)"
    by (simp_all add: getError_of_nat[OF k])
  show "ratio_e (ewidth (reducedError r))
           = of_nat ((w div k) div gcd (w div k) (h div k))"
    using g by (simp add: reducedError_def Let_def assms(4) ew eh getGcd_of_nat of_nat_div_exact)
  show "ratio_e (eheight (reducedError r))
           = of_nat ((h div k) div gcd (w div k) (h div k))"
    using g by (simp add: reducedError_def Let_def assms(4) ew eh getGcd_of_nat of_nat_div_exact)
qed

subsection \<open>The exact ratio\<close>

lemma ratio_fuzzRatio:
  "ratio (fuzzRatio options)
   = \<lparr>width = width options / getGcd (width options) (height options),
      height = height options / getGcd (width options) (height options)\<rparr>"
  by (simp add: fuzzRatio_def Let_def split: list.splits)

lemma ratio_of_nat:
  assumes "0 < w" "width options = of_nat w" "height options = of_nat h"
  shows "ratio (fuzzRatio options)
         = \<lparr>width = of_nat (w div gcd w h), height = of_nat (h div gcd w h)\<rparr>"
  using assms by (simp add: ratio_fuzzRatio getGcd_of_nat of_nat_div_exact)

lemma fuzzed_surfaced: "fuzzed res = Some f \<Longrightarrow> f \<in> set (surfaced res)"
  by (simp add: surfaced_def)

subsection \<open>The allow-list\<close>

text \<open>
  Every candidate has a divisor of at least 2, so the disjunct \<^verbatim>\<open>ratio.div === 1\<close> of the
  filter is never true and a supplied allow-list can reject every candidate, although the
  comment on it reads ``to ensure that we definitely have at least one ratio''.
\<close>

lemma candidate_divisor_ge_2:
  assumes "c \<in> set (acceptableRatios options)"
  shows "2 \<le> div_a c"
proof -
  from assms obtain r where r: "r \<in> set (ratios options)" and "div_a c = div_a r"
    by (auto simp: in_acceptableRatios)
  moreover from r have "2 \<le> div_a r" by (auto simp: ratios_def getDivisors_eq)
  ultimately show ?thesis by simp
qed

lemma effective_error: "error_a c = Some e \<Longrightarrow> effective c = (width (toFuzzed c e), height (toFuzzed c e))"
  by (simp add: effective_def toFuzzed_def)

subsection \<open>alts\<close>

lemma altsLoop_keys:
  assumes "(k, f) \<in> set (altsLoop cs)"
  shows "k = (width f, height f)"
  using foldl_altsStep_values[of k f "[]" cs] assms by (auto simp: altsLoop_def)

lemma altsLoop_distinct_pairs:
  "distinct (map (\<lambda>f. (width f, height f)) (map snd (altsLoop cs)))"
proof -
  have eq: "map (\<lambda>f. (width f, height f)) (map snd (altsLoop cs)) = map fst (altsLoop cs)"
    using altsLoop_keys by (auto simp: map_eq_conv)
  have "distinct (map fst (altsLoop cs))"
    unfolding altsLoop_def by (rule foldl_altsStep_distinct) simp
  then show ?thesis by (simp only: eq)
qed

lemma altsLoop_covers:
  assumes "c \<in> set cs" "error_a c = Some e"
  shows "\<exists>f \<in> set (map snd (altsLoop cs)).
           (width f, height f) = effective c
           \<and> combinedPercent f \<le> combinedPercent (toFuzzed c e)"
proof -
  let ?k = "(width (toFuzzed c e), height (toFuzzed c e))"
  from foldl_altsStep_covers[OF assms, of "[]"] obtain f
    where f: "map_of (altsLoop cs) ?k = Some f"
      "combinedPercent f \<le> combinedPercent (toFuzzed c e)"
    by (auto simp: altsLoop_def)
  from f(1) have mem: "(?k, f) \<in> set (altsLoop cs)" by (rule map_of_SomeD)
  then have "?k = (width f, height f)" by (rule altsLoop_keys)
  moreover from mem have "f \<in> set (map snd (altsLoop cs))" by force
  ultimately show ?thesis using f(2) effective_error[OF assms(2)] by auto
qed

lemma alts_fuzzRatio:
  assumes "alts (fuzzRatio options) = Some xs"
  shows "sortedCandidates options \<noteq> []
         \<and> xs = map snd (altsLoop (tl (sortedCandidates options)))"
  using assms by (cases "sortedCandidates options") (auto simp: fuzzRatio_def Let_def)

subsection \<open>Small dimensions\<close>

lemma getDivisors_sorted: "sorted_wrt (<) (getDivisors left right)"
  by (simp add: getDivisors_eq sorted_wrt_map)

lemma getDivisors_small:
  assumes "min left right < 4"
  shows "getDivisors left right = []"
proof -
  have "min left right / 2 < 2" using assms by simp
  then have "\<lfloor>min left right / 2\<rfloor> < 2" by (simp add: floor_less_iff)
  then show ?thesis by (simp add: getDivisors_eq)
qed

lemma fuzzRatio_no_candidate:
  assumes "sortedCandidates options = []"
  shows "fuzzRatio options
         = \<lparr>ratio = \<lparr>width = width options / getGcd (width options) (height options),
                     height = height options / getGcd (width options) (height options)\<rparr>,
            fuzzed = None, alts = None\<rparr>"
  using assms by (simp add: fuzzRatio_def Let_def)

lemma sortedCandidates_small:
  assumes "min (width options) (height options) < 4"
  shows "sortedCandidates options = []"
  using getDivisors_small[OF assms]
  by (simp add: sortedCandidates_def allowedCandidates_def acceptableRatios_def ratios_def)

lemma getGcd_2_2: "getGcd 2 2 = 2"
  by code_simp

subsection \<open>The divisor count and the denominators\<close>

lemma length_getDivisors:
  "length (getDivisors left right) = nat (\<lfloor>min left right / 2\<rfloor> - 1)"
  by (simp add: getDivisors_eq)

lemma no_zero_division:
  assumes "0 < w" "0 < h" "width options = of_nat w" "height options = of_nat h"
    and "r \<in> set (ratios options)"
  shows "getGcd (width options) (height options) \<noteq> 0"
    and "div_a r \<noteq> 0"
    and "width r * div_a r \<noteq> 0"
    and "height r * div_a r \<noteq> 0"
    and "getGcd (ratio_e (getError (width r) (div_a r)))
                (ratio_e (getError (height r) (div_a r))) \<noteq> 0"
proof -
  show "getGcd (width options) (height options) \<noteq> 0"
    using assms(1) by (simp add: assms(3,4) getGcd_of_nat)
  from in_ratios_of_nat[OF assms(3,4,5)] obtain k
    where k: "2 \<le> k" "2 * k \<le> w" "2 * k \<le> h"
      and r: "r = \<lparr>width = of_nat w / of_nat k, height = of_nat h / of_nat k,
                    div_a = of_nat k, error_a = None\<rparr>"
    by blast
  have k0: "0 < k" using k(1) by simp
  show "div_a r \<noteq> 0" using k0 by (simp add: r)
  show "width r * div_a r \<noteq> 0" using k0 assms(1) by (simp add: r)
  show "height r * div_a r \<noteq> 0" using k0 assms(2) by (simp add: r)
  from reducedError_ratio_of_nat(3)[OF k r]
  show "getGcd (ratio_e (getError (width r) (div_a r)))
               (ratio_e (getError (height r) (div_a r))) \<noteq> 0"
    by (simp add: r getError_of_nat[OF k0] getGcd_of_nat)
qed

subsection \<open>The 796 by 1134 scenario\<close>

lemma sort_key_head_least:
  assumes "sort_key f xs = y # ys" "x \<in> set xs"
  shows "f y \<le> f x"
proof -
  have "sorted (map f (y # ys))" using sorted_sort_key[of f xs] assms(1) by simp
  then have "\<forall>z \<in> set ys. f y \<le> f z" by simp
  moreover have "x \<in> set (y # ys)" using assms set_sort[of f xs] by simp
  ultimately show ?thesis by auto
qed

lemma sorted_exact_origin:
  assumes "c \<in> set (sortedCandidates options)" "error_a c = None"
  shows "c \<in> set (ratios options) \<and> isExact c"
proof -
  from assms(1) have "c \<in> set (acceptableRatios options)"
    by (simp add: set_sortedCandidates)
  then obtain r where "r \<in> set (ratios options)"
    "(c = r \<and> isExact r)
        \<or> (c = r\<lparr>error_a := Some (reducedError r)\<rparr>
            \<and> withinTolerance options (reducedError r))"
    by (auto simp: in_acceptableRatios)
  with assms(2) show ?thesis by auto
qed

lemma exact_quotient_dvd:
  assumes "0 < k" "(of_nat n / of_nat k :: rat) = Math_round (of_nat n / of_nat k)"
  shows "k dvd n"
proof -
  from assms(2) obtain m :: int where m: "(of_nat n / of_nat k :: rat) = of_int m"
    unfolding Math_round_def by blast
  then have "(of_nat n :: rat) = of_int m * of_nat k" using assms(1) by (simp add: field_simps)
  then have "(of_int (int n) :: rat) = of_int (m * int k)" by simp
  then have "int n = m * int k" by (simp only: of_int_eq_iff)
  then have "int k dvd int n" by simp
  then show ?thesis by (simp only: int_dvd_int_iff)
qed

lemma exact_candidate_796_1134:
  assumes "width options = 796" "height options = 1134"
    and "c \<in> set (sortedCandidates options)" "error_a c = None"
  shows "cost c = 965"
proof -
  from sorted_exact_origin[OF assms(3,4)]
  have c: "c \<in> set (ratios options)" and ex: "isExact c" by simp_all
  have w: "width options = of_nat 796" and h: "height options = of_nat 1134"
    using assms(1,2) by simp_all
  from in_ratios_of_nat[OF w h c] obtain k
    where k: "2 \<le> k"
      and r: "c = \<lparr>width = of_nat 796 / of_nat k, height = of_nat 1134 / of_nat k,
                    div_a = of_nat k, error_a = None\<rparr>"
    by blast
  have k0: "0 < k" using k by simp
  from ex have "k dvd 796" "k dvd 1134"
    using exact_quotient_dvd[OF k0, of 796] exact_quotient_dvd[OF k0, of 1134]
    by (simp_all add: isExact_def r)
  then have "k dvd gcd 796 1134" by simp
  moreover have "gcd (796::nat) 1134 = 2" by code_simp
  ultimately have "k dvd 2" by simp
  then have "k \<le> 2" by (rule dvd_imp_le) simp
  with k have "k = 2" by simp
  then show ?thesis by (simp add: r cost_def effective_def)
qed

lemma c796_4_candidate:
  "c796_4 \<in> set (sortedCandidates \<lparr>width = 796, height = 1134, type_o = Range,
                                     tolerance = 2, allowedRatios = None\<rparr>)"
proof -
  let ?o = "\<lparr>width = 796, height = 1134, type_o = Range, tolerance = 2,
             allowedRatios = None\<rparr>"
  let ?r = "\<lparr>width = 199, height = 567 / 2, div_a = 4, error_a = None\<rparr>"
  have "\<lfloor>min (796::rat) 1134 / 2\<rfloor> = 398" by simp
  then have "(4::rat) \<in> set (getDivisors 796 1134)"
    by (simp add: getDivisors_eq image_iff)
  then have r: "?r \<in> set (ratios ?o)" by (simp add: ratios_def image_iff) 
  have e: "reducedError ?r = the (error_a c796_4)" unfolding c796_4_def by code_simp
  have t: "withinTolerance ?o (reducedError ?r)" by code_simp
  have "c796_4 = ?r\<lparr>error_a := Some (reducedError ?r)\<rparr>" by (simp add: e c796_4_def)
  with r t have "c796_4 \<in> set (acceptableRatios ?o)"
    unfolding in_acceptableRatios by blast
  then show ?thesis by (simp add: set_sortedCandidates isAllowed_def)
qed

lemma fuzzed_796_1134:
  "\<exists>f. fuzzed (fuzzRatio \<lparr>width = 796, height = 1134, type_o = Range, tolerance = 2,
                          allowedRatios = None\<rparr>) = Some f"
proof -
  let ?o = "\<lparr>width = 796, height = 1134, type_o = Range, tolerance = 2,
             allowedRatios = None\<rparr>"
  from c796_4_candidate obtain c rest where s: "sortedCandidates ?o = c # rest"
    by (cases "sortedCandidates ?o") auto
  have mem: "c796_4 \<in> set (allowedCandidates ?o)"
    using c796_4_candidate by (simp add: sortedCandidates_def)
  have "cost c \<le> cost c796_4"
    using sort_key_head_least[OF s[unfolded sortedCandidates_def] mem] .
  moreover have "cost c796_4 = 482" by (simp add: cost_def effective_def c796_4_def)
  ultimately have le: "cost c \<le> 482" by simp
  have "error_a c \<noteq> None"
  proof
    assume "error_a c = None"
    from exact_candidate_796_1134[OF _ _ _ this, of ?o] s have "cost c = 965" by simp
    with le show False by simp
  qed
  then obtain e where "error_a c = Some e" by auto
  with s show ?thesis by (simp add: fuzzRatio_def Let_def)
qed

lemma getGcd_796_1134: "getGcd 796 1134 = 2"
  by code_simp

subsection \<open>The run with its array limit\<close>

lemma divisorsLoop_eq:
  assumes "length divs \<le> limit"
  shows "divisorsLoop limit i half divs
         = (if length divs + nat (half - i + 1) \<le> limit
            then Inr (divs @ map of_int [i .. half]) else Inl RangeError)"
  using assms
proof (induction limit i half divs rule: divisorsLoop.induct)
  case (1 limit i half divs)
  show ?case
  proof (cases "i \<le> half")
    case False
    then show ?thesis using "1.prems" by (subst divisorsLoop.simps) simp
  next
    case le: True
    then have n: "nat (half - i + 1) = Suc (nat (half - (i + 1) + 1))" by simp
    have u: "[i .. half] = i # [i + 1 .. half]" using le by (simp add: upto_rec1)
    show ?thesis
    proof (cases "length divs < limit")
      case False
      then show ?thesis using le n by (subst divisorsLoop.simps) (simp add: push_def)
    next
      case True
      then have p: "push limit divs (of_int i) = Inr (divs @ [of_int i])" by (simp add: push_def)
      have "length (divs @ [of_int i :: rat]) \<le> limit" using True by simp
      from "1.IH"[OF le p this] show ?thesis
        using le by (subst divisorsLoop.simps) (simp add: p n u)
    qed
  qed
qed

lemma getDivisors_checked_eq:
  "getDivisors_checked limit left right
   = (if length (getDivisors left right) \<le> limit
      then Inr (getDivisors left right) else Inl RangeError)"
  by (simp add: getDivisors_checked_def getDivisors_def Let_def divisorsLoop_eq)

lemma pushAcceptable_checked_eq:
  assumes "length (pushAcceptable options acc r) \<le> limit"
  shows "pushAcceptable_checked limit options acc r = Inr (pushAcceptable options acc r)"
  using assms
  by (cases "isExact r"; cases "withinTolerance options (reducedError r)")
     (auto simp: pushAcceptable_checked_def pushAcceptable_def push_def Let_def)

lemma length_foldl_pushAcceptable:
  "length acc \<le> length (foldl (pushAcceptable options) acc rs)"
  by (simp add: foldl_pushAcceptable)

lemma acceptableLoop_eq:
  assumes "length (foldl (pushAcceptable options) acc rs) \<le> limit"
  shows "acceptableLoop limit options acc rs = Inr (foldl (pushAcceptable options) acc rs)"
  using assms
proof (induction rs arbitrary: acc)
  case Nil
  show ?case by simp
next
  case (Cons r rs)
  have "length (pushAcceptable options acc r)
        \<le> length (foldl (pushAcceptable options) (pushAcceptable options acc r) rs)"
    by (rule length_foldl_pushAcceptable)
  with Cons.prems have "length (pushAcceptable options acc r) \<le> limit" by simp
  from pushAcceptable_checked_eq[OF this] Cons.IH[of "pushAcceptable options acc r"] Cons.prems
  show ?case by simp
qed

lemma length_pushAcceptable: "length (pushAcceptable options [] r) \<le> 2"
  by (simp add: pushAcceptable_def Let_def)

lemma length_concat_le:
  assumes "\<And>x. x \<in> set xs \<Longrightarrow> length (f x) \<le> n"
  shows "length (concat (map f xs)) \<le> n * length xs"
  using assms by (induction xs) (auto simp: add_le_mono)

lemma length_acceptableRatios:
  "length (acceptableRatios options)
   \<le> 2 * length (getDivisors (width options) (height options))"
proof -
  have "length (acceptableRatios options) \<le> 2 * length (ratios options)"
    unfolding acceptableRatios_concat by (rule length_concat_le) (rule length_pushAcceptable)
  then show ?thesis by (simp add: ratios_def)
qed

lemma fuzzRatio_checked_returns:
  assumes "2 * length (getDivisors (width options) (height options)) \<le> limit"
  shows "fuzzRatio_checked limit options = Inr (fuzzRatio options)"
proof -
  from assms have d: "length (getDivisors (width options) (height options)) \<le> limit" by simp
  from assms length_acceptableRatios[of options]
  have "length (acceptableRatios options) \<le> limit" by simp
  then have a: "acceptableLoop limit options [] (ratios options) = Inr (acceptableRatios options)"
    unfolding acceptableRatios_def by (rule acceptableLoop_eq)
  show ?thesis
    using d a[unfolded ratios_def]
    by (simp add: fuzzRatio_checked_def getDivisors_checked_eq fuzzRatio_def Let_def
        sortedCandidates_def allowedCandidates_def)
qed

lemma fuzzRatio_checked_raises:
  assumes "limit < length (getDivisors (width options) (height options))"
  shows "fuzzRatio_checked limit options = Inl RangeError"
  using assms by (simp add: fuzzRatio_checked_def getDivisors_checked_eq)

lemma length_getDivisors_of_nat:
  "length (getDivisors (of_nat w) (of_nat h)) = min w h div 2 - 1"
proof -
  have "min (of_nat w) (of_nat h :: rat) = of_nat (min w h)" by (simp add: min_def)
  then have "\<lfloor>min (of_nat w) (of_nat h :: rat) / 2\<rfloor> = int (min w h div 2)"
    using floor_divide_of_nat_eq[of "min w h" 2, where ?'a = rat] by simp
  then show ?thesis by (simp add: length_getDivisors)
qed

lemma pushAcceptable_checked_Inr:
  assumes "pushAcceptable_checked limit options acc r = Inr acc'"
  shows "acc' = pushAcceptable options acc r"
  using assms
  by (cases "isExact r"; cases "withinTolerance options (reducedError r)")
     (auto simp: pushAcceptable_checked_def pushAcceptable_def push_def Let_def
           split: if_splits sum.splits)

lemma acceptableLoop_Inr:
  assumes "acceptableLoop limit options acc rs = Inr xs"
  shows "xs = foldl (pushAcceptable options) acc rs"
  using assms
proof (induction rs arbitrary: acc)
  case Nil
  then show ?case by simp
next
  case (Cons r rs)
  from Cons.prems obtain acc' where a: "pushAcceptable_checked limit options acc r = Inr acc'"
    and l: "acceptableLoop limit options acc' rs = Inr xs"
    by (auto split: sum.splits)
  from pushAcceptable_checked_Inr[OF a] Cons.IH[OF l] show ?case by simp
qed

lemma fuzzRatio_checked_Inr:
  assumes "fuzzRatio_checked limit options = Inr res"
  shows "res = fuzzRatio options"
proof -
  from assms obtain divs where d: "getDivisors_checked limit (width options) (height options) = Inr divs"
    by (auto simp: fuzzRatio_checked_def split: sum.splits)
  then have divs: "divs = getDivisors (width options) (height options)"
    by (auto simp: getDivisors_checked_eq split: if_splits)
  from assms d obtain acceptable
    where a: "acceptableLoop limit options [] (ratios options) = Inr acceptable"
    by (auto simp: fuzzRatio_checked_def Let_def ratios_def divs split: sum.splits)
  from acceptableLoop_Inr[OF a] have acc: "acceptable = acceptableRatios options"
    by (simp add: acceptableRatios_def)
  from assms d a[unfolded ratios_def] show ?thesis
    by (simp add: fuzzRatio_checked_def Let_def divs acc fuzzRatio_def
        sortedCandidates_def allowedCandidates_def)
qed

subsection \<open>Sample runs\<close>

lemma fuzzed_13_9_range:
  "fuzzed (fuzzRatio \<lparr>width = 13, height = 9, type_o = Range, tolerance = 1,
                      allowedRatios = None\<rparr>) = Some f139"
  unfolding f139_def by code_simp

lemma fuzzed_13_9_percent:
  "fuzzed (fuzzRatio \<lparr>width = 13, height = 9, type_o = Percent, tolerance = 12,
                      allowedRatios = None\<rparr>) = Some f139"
  unfolding f139_def by code_simp

lemma alts_14_14:
  "alts (fuzzRatio \<lparr>width = 14, height = 14, type_o = Range, tolerance = 2,
                    allowedRatios = None\<rparr>) = Some [f14_7]"
  unfolding f14_7_def by code_simp

lemma rest_14_14:
  "tl (sortedCandidates \<lparr>width = 14, height = 14, type_o = Range, tolerance = 2,
                         allowedRatios = None\<rparr>)
   = [c14_3,
      \<lparr>width = 7 / 2, height = 7 / 2, div_a = 4, error_a = error_a c14_3\<rparr>,
      \<lparr>width = 7 / 3, height = 7 / 3, div_a = 6, error_a = error_a c14_3\<rparr>,
      \<lparr>width = 2, height = 2, div_a = 7,
        error_a = Some \<lparr>ewidth = \<lparr>range_e = 0, percent_e = 0, ratio_e = 1, mod_e = 14\<rparr>,
                        eheight = \<lparr>range_e = 0, percent_e = 0, ratio_e = 1, mod_e = 14\<rparr>\<rparr>\<rparr>,
      \<lparr>width = 2, height = 2, div_a = 7, error_a = None\<rparr>,
      \<lparr>width = 7, height = 7, div_a = 2, error_a = None\<rparr>]"
  unfolding c14_3_def by code_simp

lemma ratios_13_9:
  "ratios \<lparr>width = 13, height = 9, type_o = Range, tolerance = 1, allowedRatios = None\<rparr>
   = [\<lparr>width = 13 / 2, height = 9 / 2, div_a = 2, error_a = None\<rparr>,
      \<lparr>width = 13 / 3, height = 3, div_a = 3, error_a = None\<rparr>,
      \<lparr>width = 13 / 4, height = 9 / 4, div_a = 4, error_a = None\<rparr>]"
  by code_simp

lemma sorted_4_6:
  "sortedCandidates \<lparr>width = 4, height = 6, type_o = Percent, tolerance = 0,
                     allowedRatios = None\<rparr>
   = [\<lparr>width = 2, height = 3, div_a = 2, error_a = None\<rparr>,
      \<lparr>width = 2, height = 3, div_a = 2,
        error_a = Some \<lparr>ewidth = \<lparr>range_e = 0, percent_e = 0, ratio_e = 2, mod_e = 4\<rparr>,
                        eheight = \<lparr>range_e = 0, percent_e = 0, ratio_e = 3, mod_e = 6\<rparr>\<rparr>\<rparr>]"
  by code_simp

lemma acceptable_16_9:
  "acceptableRatios \<lparr>width = 16, height = 9, type_o = Percent, tolerance = 0,
                     allowedRatios = Some [\<lparr>width = 16, height = 9\<rparr>]\<rparr> = []"
  by code_simp

lemma sorted_13_9:
  "sortedCandidates \<lparr>width = 13, height = 9, type_o = Range, tolerance = 1,
                     allowedRatios = None\<rparr>
   = [\<lparr>width = 13 / 2, height = 9 / 2, div_a = 2,
        error_a = Some \<lparr>ewidth = \<lparr>range_e = 1, percent_e = 769 / 100, ratio_e = 3,
                                  mod_e = 12\<rparr>,
                        eheight = \<lparr>range_e = 1, percent_e = 1111 / 100, ratio_e = 2,
                                   mod_e = 8\<rparr>\<rparr>\<rparr>,
      \<lparr>width = 13 / 4, height = 9 / 4, div_a = 4,
        error_a = Some \<lparr>ewidth = \<lparr>range_e = 1, percent_e = 769 / 100, ratio_e = 3,
                                  mod_e = 12\<rparr>,
                        eheight = \<lparr>range_e = 1, percent_e = 1111 / 100, ratio_e = 2,
                                   mod_e = 8\<rparr>\<rparr>\<rparr>,
      \<lparr>width = 13 / 3, height = 3, div_a = 3,
        error_a = Some \<lparr>ewidth = \<lparr>range_e = 1, percent_e = 769 / 100, ratio_e = 4,
                                  mod_e = 12\<rparr>,
                        eheight = \<lparr>range_e = 0, percent_e = 0, ratio_e = 3,
                                   mod_e = 9\<rparr>\<rparr>\<rparr>]"
  by code_simp

section \<open>The claims\<close>

text \<open>
  C1, as amended: when the divisor search produces no candidate the result is the bare
  \<^verbatim>\<open>{ratio}\<close>, and with no allow-list supplied that is the only case in which it is.
  When at least one candidate is ranked, \<^verbatim>\<open>alts\<close> is returned and \<^verbatim>\<open>fuzzed\<close> is
  present exactly when the first-ranked candidate carries an error metric: when the
  first-ranked candidate is an exact reduction, \<^verbatim>\<open>fuzzed\<close> is absent although
  candidates exist. What is returned when a supplied allow-list rejects every candidate
  is not part of this statement.
\<close>

theorem fuzzed_present_iff:
  "(acceptableRatios options = [] \<longrightarrow>
      fuzzRatio options = \<lparr>ratio = ratio (fuzzRatio options), fuzzed = None, alts = None\<rparr>)
   \<and> (sortedCandidates options = c # rest \<longrightarrow>
      alts (fuzzRatio options) \<noteq> None
      \<and> (fuzzed (fuzzRatio options) \<noteq> None \<longleftrightarrow> error_a c \<noteq> None))
   \<and> (allowedRatios options = None \<longrightarrow>
      (fuzzRatio options = \<lparr>ratio = ratio (fuzzRatio options), fuzzed = None, alts = None\<rparr>
       \<longleftrightarrow> acceptableRatios options = []))"
proof -
  have bare: "fuzzRatio options
        = \<lparr>ratio = ratio (fuzzRatio options), fuzzed = None, alts = None\<rparr>"
    if "sortedCandidates options = []"
    using that by (simp add: fuzzRatio_def Let_def)
  have 1: "fuzzRatio options
        = \<lparr>ratio = ratio (fuzzRatio options), fuzzed = None, alts = None\<rparr>"
    if "acceptableRatios options = []"
    using that by (intro bare) (simp add: sortedCandidates_def allowedCandidates_def)
  have 2: "alts (fuzzRatio options) \<noteq> None
      \<and> (fuzzed (fuzzRatio options) \<noteq> None \<longleftrightarrow> error_a c \<noteq> None)"
    if "sortedCandidates options = c # rest"
    using that by (cases "error_a c") (simp_all add: fuzzRatio_def Let_def)
  have 3: "fuzzRatio options = \<lparr>ratio = ratio (fuzzRatio options), fuzzed = None, alts = None\<rparr>
       \<longleftrightarrow> acceptableRatios options = []"
    if none: "allowedRatios options = None"
  proof
    assume b: "fuzzRatio options
        = \<lparr>ratio = ratio (fuzzRatio options), fuzzed = None, alts = None\<rparr>"
    have "sortedCandidates options = []"
    proof (cases "sortedCandidates options")
      case Nil
      then show ?thesis .
    next
      case (Cons x xs)
      then have "alts (fuzzRatio options) \<noteq> None" by (simp add: fuzzRatio_def Let_def)
      with b show ?thesis by (metis Result.select_convs(3))
    qed
    then have "set (allowedCandidates options) = {}"
      unfolding sortedCandidates_def using set_sort[of cost "allowedCandidates options"] by simp
    then show "acceptableRatios options = []"
      using none by (simp add: allowedCandidates_def isAllowed_def)
  next
    assume "acceptableRatios options = []"
    then show "fuzzRatio options
        = \<lparr>ratio = ratio (fuzzRatio options), fuzzed = None, alts = None\<rparr>"
      by (rule 1)
  qed
  from 1 2 3 show ?thesis by blast
qed

theorem fuzzed_present_iff_witness:
  "acceptableRatios \<lparr>width = 16, height = 9, type_o = Percent, tolerance = 0,
                     allowedRatios = Some [\<lparr>width = 16, height = 9\<rparr>]\<rparr> = []
   \<and> fuzzed (fuzzRatio \<lparr>width = 16, height = 9, type_o = Percent, tolerance = 0,
                        allowedRatios = Some [\<lparr>width = 16, height = 9\<rparr>]\<rparr>) = None
   \<and> alts (fuzzRatio \<lparr>width = 16, height = 9, type_o = Percent, tolerance = 0,
                      allowedRatios = Some [\<lparr>width = 16, height = 9\<rparr>]\<rparr>) = None
   \<and> sortedCandidates \<lparr>width = 4, height = 6, type_o = Percent, tolerance = 0,
                       allowedRatios = None\<rparr> \<noteq> []
   \<and> error_a (hd (sortedCandidates \<lparr>width = 4, height = 6, type_o = Percent,
                                    tolerance = 0, allowedRatios = None\<rparr>)) = None
   \<and> fuzzed (fuzzRatio \<lparr>width = 4, height = 6, type_o = Percent, tolerance = 0,
                        allowedRatios = None\<rparr>) = None
   \<and> alts (fuzzRatio \<lparr>width = 4, height = 6, type_o = Percent, tolerance = 0,
                      allowedRatios = None\<rparr>) \<noteq> None
   \<and> sortedCandidates \<lparr>width = 13, height = 9, type_o = Range, tolerance = 1,
                       allowedRatios = None\<rparr> \<noteq> []
   \<and> error_a (hd (sortedCandidates \<lparr>width = 13, height = 9, type_o = Range,
                                    tolerance = 1, allowedRatios = None\<rparr>)) \<noteq> None
   \<and> fuzzed (fuzzRatio \<lparr>width = 13, height = 9, type_o = Range, tolerance = 1,
                        allowedRatios = None\<rparr>) \<noteq> None
   \<and> allowedRatios \<lparr>width = 4, height = 6, type_o = Percent, tolerance = 0,
                    allowedRatios = None\<rparr> = None
   \<and> acceptableRatios \<lparr>width = 4, height = 6, type_o = Percent, tolerance = 0,
                       allowedRatios = None\<rparr> \<noteq> []
   \<and> fuzzRatio \<lparr>width = 4, height = 6, type_o = Percent, tolerance = 0,
                 allowedRatios = None\<rparr>
     \<noteq> \<lparr>ratio = ratio (fuzzRatio \<lparr>width = 4, height = 6, type_o = Percent, tolerance = 0,
                                   allowedRatios = None\<rparr>),
         fuzzed = None, alts = None\<rparr>"
proof -
  let ?o169 = "\<lparr>width = 16, height = 9, type_o = Percent, tolerance = 0,
                allowedRatios = Some [\<lparr>width = 16, height = 9\<rparr>]\<rparr>"
  let ?o46 = "\<lparr>width = 4, height = 6, type_o = Percent, tolerance = 0, allowedRatios = None\<rparr>"
  let ?o139 = "\<lparr>width = 13, height = 9, type_o = Range, tolerance = 1, allowedRatios = None\<rparr>"
  from fuzzed_present_iff[of ?o169] acceptable_16_9
  have a: "fuzzRatio ?o169 = \<lparr>ratio = ratio (fuzzRatio ?o169), fuzzed = None, alts = None\<rparr>"
    by blast
  have a1: "fuzzed (fuzzRatio ?o169) = None" by (subst a) simp
  have a2: "alts (fuzzRatio ?o169) = None" by (subst a) simp
  have b: "alts (fuzzRatio ?o46) \<noteq> None" "fuzzed (fuzzRatio ?o46) = None"
    using fuzzed_present_iff[THEN conjunct2, THEN conjunct1, THEN mp, OF sorted_4_6]
    by simp_all
  have c: "fuzzed (fuzzRatio ?o139) \<noteq> None"
    using fuzzed_present_iff[THEN conjunct2, THEN conjunct1, THEN mp, OF sorted_13_9]
    by simp
  have n: "allowedRatios ?o46 = None" by simp
  have ne: "acceptableRatios ?o46 \<noteq> []" by code_simp
  from fuzzed_present_iff[of ?o46] n ne
  have d: "fuzzRatio ?o46 \<noteq> \<lparr>ratio = ratio (fuzzRatio ?o46), fuzzed = None, alts = None\<rparr>"
    by blast
  show ?thesis
    using acceptable_16_9 a1 a2 b c d ne
    by (simp add: sorted_4_6 sorted_13_9)
qed

text \<open>
  C1 as stated fails. For a 4 by 6 image with tolerance 0 the divisor 2 gives the exact
  candidate 2:3 and its error-bearing twin, of equal cost; the exact one is pushed first
  and the sort is stable, so the exact one ranks first and \<^verbatim>\<open>fuzzed\<close> is absent while
  \<^verbatim>\<open>alts\<close> holds the twin.
\<close>

theorem fuzzed_absent_with_candidates:
  "acceptableRatios \<lparr>width = 4, height = 6, type_o = Percent, tolerance = 0,
                     allowedRatios = None\<rparr> \<noteq> []
   \<and> fuzzed (fuzzRatio \<lparr>width = 4, height = 6, type_o = Percent, tolerance = 0,
                        allowedRatios = None\<rparr>) = None
   \<and> alts (fuzzRatio \<lparr>width = 4, height = 6, type_o = Percent, tolerance = 0,
                      allowedRatios = None\<rparr>) \<noteq> None"
  by code_simp

text \<open>
  C2: for positive integers \<open>w\<close> and \<open>h\<close> the \<^verbatim>\<open>ratio\<close> field is the GCD-reduction
  of the true dimensions: its two components are \<open>w / gcd w h\<close> and \<open>h / gcd w h\<close>, they
  are coprime, and their quotient is \<open>w / h\<close> as an exact rational. It is computed from the
  original width and height, whatever the candidates are.
\<close>

theorem ratio_is_gcd_reduction:
  assumes "0 < w" "0 < h" "width options = of_nat w" "height options = of_nat h"
  shows "ratio (fuzzRatio options)
           = \<lparr>width = of_nat (w div gcd w h), height = of_nat (h div gcd w h)\<rparr>
         \<and> coprime (w div gcd w h) (h div gcd w h)
         \<and> 0 < h div gcd w h
         \<and> width (ratio (fuzzRatio options)) / height (ratio (fuzzRatio options))
             = width options / height options"
proof -
  let ?g = "gcd w h"
  have g: "?g \<noteq> 0" using assms(1) by simp
  have r: "ratio (fuzzRatio options)
           = \<lparr>width = of_nat (w div ?g), height = of_nat (h div ?g)\<rparr>"
    by (rule ratio_of_nat[OF assms(1,3,4)])
  have c: "coprime (w div ?g) (h div ?g)"
    using assms(1) by (intro div_gcd_coprime) simp
  have hpos: "0 < h div ?g"
    using assms(2) by (simp add: div_greater_zero_iff dvd_imp_le)
  have "width (ratio (fuzzRatio options)) / height (ratio (fuzzRatio options))
        = (of_nat w / of_nat ?g) / (of_nat h / of_nat ?g :: rat)"
    using g by (simp add: r of_nat_div_exact)
  also have "\<dots> = of_nat w / of_nat h" using g by simp
  finally show ?thesis using r c hpos assms(3,4) by simp
qed

theorem ratio_is_gcd_reduction_witness:
  "(0::nat) < 4 \<and> (0::nat) < 6
   \<and> ratio (fuzzRatio \<lparr>width = 4, height = 6, type_o = Percent, tolerance = 0,
                        allowedRatios = None\<rparr>)
       = \<lparr>width = 2, height = 3\<rparr>
   \<and> coprime (2::nat) 3"
proof -
  have g: "gcd (4::nat) 6 = 2" by code_simp
  have d: "(4::nat) div 2 = 2" "(6::nat) div 2 = 3" by simp_all
  show ?thesis
    using ratio_is_gcd_reduction[of 4 6
        "\<lparr>width = 4, height = 6, type_o = Percent, tolerance = 0, allowedRatios = None\<rparr>"]
    by (simp add: g d)
qed

text \<open>
  C3: every candidate returned in \<^verbatim>\<open>fuzzed\<close> or \<^verbatim>\<open>alts\<close> is within the tolerance:
  for type percent both percent errors are at most the tolerance, for type range both
  \<^verbatim>\<open>diff\<close> errors are.
\<close>

theorem tolerance_respected:
  assumes "f \<in> set (surfaced (fuzzRatio options))"
  shows "(type_o options = Percent \<longrightarrow>
            percent (ewidth (error f)) \<le> tolerance options
            \<and> percent (eheight (error f)) \<le> tolerance options)
         \<and> (type_o options = Range \<longrightarrow>
            diff (ewidth (error f)) \<le> tolerance options
            \<and> diff (eheight (error f)) \<le> tolerance options)"
  using surfaced_within_tolerance[OF assms] by (auto split: FuzzType.splits)

theorem tolerance_respected_witness:
  "f139 \<in> set (surfaced (fuzzRatio \<lparr>width = 13, height = 9, type_o = Range, tolerance = 1,
                                    allowedRatios = None\<rparr>))
   \<and> diff (ewidth (error f139)) \<le> 1 \<and> diff (eheight (error f139)) \<le> 1
   \<and> f139 \<in> set (surfaced (fuzzRatio \<lparr>width = 13, height = 9, type_o = Percent,
                                      tolerance = 12, allowedRatios = None\<rparr>))
   \<and> percent (ewidth (error f139)) \<le> 12 \<and> percent (eheight (error f139)) \<le> 12"
proof -
  note r = fuzzed_surfaced[OF fuzzed_13_9_range]
  note p = fuzzed_surfaced[OF fuzzed_13_9_percent]
  from tolerance_respected[OF r] tolerance_respected[OF p] r p
  show ?thesis by simp
qed

text \<open>
  C4: for positive integer inputs, every candidate returned in \<^verbatim>\<open>fuzzed\<close> or \<^verbatim>\<open>alts\<close>
  has integer width and height that are coprime: they are the two floored quotients
  divided by their GCD.
\<close>

theorem fuzzed_pairs_coprime:
  assumes "0 < w" "0 < h" "width options = of_nat w" "height options = of_nat h"
    and "f \<in> set (surfaced (fuzzRatio options))"
  shows "\<exists>a b. width f = of_nat a \<and> height f = of_nat b \<and> coprime a b"
proof -
  from surfaced_from_divisor[OF assms(5)] obtain r
    where r: "r \<in> set (ratios options)" and f: "f = toFuzzed r (reducedError r)"
    by blast
  from in_ratios_of_nat[OF assms(3,4) r] obtain k
    where k: "2 \<le> k" "2 * k \<le> w" "2 * k \<le> h"
      "r = \<lparr>width = of_nat w / of_nat k, height = of_nat h / of_nat k,
            div_a = of_nat k, error_a = None\<rparr>"
    by blast
  note red = reducedError_ratio_of_nat[OF k]
  let ?g = "gcd (w div k) (h div k)"
  have "w div k \<noteq> 0 \<or> h div k \<noteq> 0" using red(3) by simp
  then have "coprime ((w div k) div ?g) ((h div k) div ?g)"
    by (rule div_gcd_coprime)
  moreover have "width f = of_nat ((w div k) div ?g)" "height f = of_nat ((h div k) div ?g)"
    using f red(1,2) by (simp_all add: toFuzzed_def)
  ultimately show ?thesis by blast
qed

theorem fuzzed_pairs_coprime_witness:
  "(0::nat) < 13 \<and> (0::nat) < 9
   \<and> f139 \<in> set (surfaced (fuzzRatio \<lparr>width = 13, height = 9, type_o = Range, tolerance = 1,
                                    allowedRatios = None\<rparr>))
   \<and> (\<exists>a b. width f139 = of_nat a \<and> height f139 = of_nat b \<and> coprime a b)"
proof -
  note r = fuzzed_surfaced[OF fuzzed_13_9_range]
  from fuzzed_pairs_coprime[OF _ _ _ _ r, of 13 9] r show ?thesis by simp
qed

text \<open>
  C5: the divisor enumerator returns the integers from 2 up to the floor of half the
  smaller dimension, in increasing order, whether they divide the dimensions or not.
  When the smaller dimension is below 4 the list is empty, no candidate is produced and
  the result has neither \<^verbatim>\<open>fuzzed\<close> nor \<^verbatim>\<open>alts\<close>; a 2 by 2 image yields the ratio 1:1
  alone.
\<close>

theorem divisors_enumerated:
  "getDivisors left right = map of_int [2 .. \<lfloor>min left right / 2\<rfloor>]
   \<and> sorted_wrt (<) (getDivisors left right)
   \<and> (min (width options) (height options) < 4 \<longrightarrow>
        getDivisors (width options) (height options) = []
        \<and> fuzzed (fuzzRatio options) = None \<and> alts (fuzzRatio options) = None)
   \<and> (width options = 2 \<and> height options = 2 \<longrightarrow>
        fuzzRatio options
        = \<lparr>ratio = \<lparr>width = 1, height = 1\<rparr>, fuzzed = None, alts = None\<rparr>)"
proof -
  have small: "getDivisors (width options) (height options) = []
        \<and> fuzzed (fuzzRatio options) = None \<and> alts (fuzzRatio options) = None"
    if "min (width options) (height options) < 4"
    using getDivisors_small[OF that] fuzzRatio_no_candidate[OF sortedCandidates_small[OF that]]
    by simp
  have two: "fuzzRatio options
        = \<lparr>ratio = \<lparr>width = 1, height = 1\<rparr>, fuzzed = None, alts = None\<rparr>"
    if "width options = 2 \<and> height options = 2"
  proof -
    from that have "min (width options) (height options) < 4" by simp
    from fuzzRatio_no_candidate[OF sortedCandidates_small[OF this]] that
    show ?thesis by (simp add: getGcd_2_2)
  qed
  from small two getDivisors_eq[of left right] getDivisors_sorted[of left right]
  show ?thesis by blast
qed

theorem divisors_enumerated_witness:
  "getDivisors 13 9 = [2, 3, 4]
   \<and> min (3::rat) 5 < 4
   \<and> getDivisors 3 5 = []
   \<and> fuzzed (fuzzRatio \<lparr>width = 3, height = 5, type_o = Range, tolerance = 2,
                        allowedRatios = None\<rparr>) = None
   \<and> alts (fuzzRatio \<lparr>width = 3, height = 5, type_o = Range, tolerance = 2,
                      allowedRatios = None\<rparr>) = None
   \<and> fuzzRatio \<lparr>width = 2, height = 2, type_o = Percent, tolerance = 10,
                 allowedRatios = None\<rparr>
     = \<lparr>ratio = \<lparr>width = 1, height = 1\<rparr>, fuzzed = None, alts = None\<rparr>"
proof -
  have u: "map rat_of_int [2 .. \<lfloor>9 / 2 :: rat\<rfloor>] = [2, 3, 4]" by code_simp
  from divisors_enumerated[of 13 9
      "\<lparr>width = 3, height = 5, type_o = Range, tolerance = 2, allowedRatios = None\<rparr>"]
    divisors_enumerated[of 13 9
      "\<lparr>width = 2, height = 2, type_o = Percent, tolerance = 10, allowedRatios = None\<rparr>"]
  show ?thesis by (simp add: u)
qed

text \<open>
  C6: when an allow-list is supplied, every candidate returned in \<^verbatim>\<open>fuzzed\<close> or
  \<^verbatim>\<open>alts\<close> comes from a ranked candidate with an error metric whose effective pair is
  the returned width and height, and that pair equals an entry of the allow-list or the
  candidate's divisor is 1.
\<close>

theorem allow_list_enforced:
  assumes "allowedRatios options = Some allowed"
    and "f \<in> set (surfaced (fuzzRatio options))"
  shows "\<exists>c \<in> set (sortedCandidates options). \<exists>e.
           error_a c = Some e \<and> f = toFuzzed c e \<and> effective c = (width f, height f)
           \<and> (div_a c = 1 \<or> (\<exists>a \<in> set allowed. width a = width f \<and> height a = height f))"
proof -
  from surfaced_origin[OF assms(2)] obtain c e
    where c: "c \<in> set (sortedCandidates options)" "error_a c = Some e" "f = toFuzzed c e"
    by blast
  have eff: "effective c = (width f, height f)" using c(2,3) by (simp add: effective_error)
  from c(1) have "isAllowed options c" by (simp add: set_sortedCandidates)
  with assms(1) eff
  have "div_a c = 1 \<or> (\<exists>a \<in> set allowed. width a = width f \<and> height a = height f)"
    by (auto simp: isAllowed_def list_ex_iff)
  with c eff show ?thesis by blast
qed

theorem allow_list_enforced_witness:
  "allowedRatios \<lparr>width = 12, height = 8, type_o = Range, tolerance = 1,
                  allowedRatios = Some [\<lparr>width = 3, height = 2\<rparr>]\<rparr>
     = Some [\<lparr>width = 3, height = 2\<rparr>]
   \<and> (\<exists>f. fuzzed (fuzzRatio \<lparr>width = 12, height = 8, type_o = Range, tolerance = 1,
                               allowedRatios = Some [\<lparr>width = 3, height = 2\<rparr>]\<rparr>) = Some f
          \<and> (\<exists>c \<in> set (sortedCandidates \<lparr>width = 12, height = 8, type_o = Range,
                 tolerance = 1, allowedRatios = Some [\<lparr>width = 3, height = 2\<rparr>]\<rparr>). \<exists>e.
               error_a c = Some e \<and> f = toFuzzed c e \<and> effective c = (width f, height f)
               \<and> (div_a c = 1
                   \<or> (\<exists>a \<in> set [\<lparr>width = 3, height = 2\<rparr>].
                         width a = width f \<and> height a = height f))))"
proof -
  let ?o = "\<lparr>width = 12, height = 8, type_o = Range, tolerance = 1,
             allowedRatios = Some [\<lparr>width = 3, height = 2\<rparr>]\<rparr>"
  let ?f = "\<lparr>width = 3, height = 2, original = \<lparr>width = 6, height = 4\<rparr>,
             error = \<lparr>ewidth = \<lparr>diff = 0, percent = 0, mod_r = 12, ratio_r = 3\<rparr>,
                      eheight = \<lparr>diff = 0, percent = 0, mod_r = 8, ratio_r = 2\<rparr>\<rparr>\<rparr>"
  have a: "allowedRatios ?o = Some [\<lparr>width = 3, height = 2\<rparr>]" by simp
  have f: "fuzzed (fuzzRatio ?o) = Some ?f" by code_simp
  from allow_list_enforced[OF a fuzzed_surfaced[OF f]] a f show ?thesis by blast
qed

text \<open>
  C7: no two entries of \<^verbatim>\<open>alts\<close> have the same width and height. Every candidate after
  the first of the ranking that carries an error metric is represented in \<^verbatim>\<open>alts\<close> by
  an entry with its pair, whose combined percent error is at most the candidate's own;
  and every entry of \<^verbatim>\<open>alts\<close> is one of these candidates.
\<close>

theorem alts_deduplicated:
  assumes "alts (fuzzRatio options) = Some xs"
  shows "distinct (map (\<lambda>f. (width f, height f)) xs)
         \<and> (\<forall>c \<in> set (tl (sortedCandidates options)). \<forall>e. error_a c = Some e \<longrightarrow>
              (\<exists>f \<in> set xs. (width f, height f) = effective c
                 \<and> combinedPercent f \<le> combinedPercent (toFuzzed c e)))
         \<and> (\<forall>f \<in> set xs. \<exists>c \<in> set (tl (sortedCandidates options)). \<exists>e.
              error_a c = Some e \<and> f = toFuzzed c e)"
proof -
  from alts_fuzzRatio[OF assms]
  have xs: "xs = map snd (altsLoop (tl (sortedCandidates options)))" by simp
  show ?thesis
    unfolding xs using altsLoop_distinct_pairs altsLoop_covers altsLoop_values by blast
qed

theorem alts_deduplicated_witness:
  "alts (fuzzRatio \<lparr>width = 14, height = 14, type_o = Range, tolerance = 2,
                    allowedRatios = None\<rparr>) = Some [f14_7]
   \<and> distinct (map (\<lambda>f. (width f, height f)) [f14_7])
   \<and> c14_3 \<in> set (tl (sortedCandidates \<lparr>width = 14, height = 14, type_o = Range,
                                         tolerance = 2, allowedRatios = None\<rparr>))
   \<and> (width f14_7, height f14_7) = effective c14_3
   \<and> combinedPercent f14_7 \<le> combinedPercent (toFuzzed c14_3 (the (error_a c14_3)))
   \<and> combinedPercent f14_7 = 0
   \<and> combinedPercent (toFuzzed c14_3 (the (error_a c14_3))) = 1429 / 50
   \<and> (\<exists>c \<in> set (tl (sortedCandidates \<lparr>width = 14, height = 14, type_o = Range,
                                         tolerance = 2, allowedRatios = None\<rparr>)).
         \<exists>e. error_a c = Some e \<and> f14_7 = toFuzzed c e)"
proof -
  let ?o = "\<lparr>width = 14, height = 14, type_o = Range, tolerance = 2, allowedRatios = None\<rparr>"
  have m: "c14_3 \<in> set (tl (sortedCandidates ?o))" by (simp add: rest_14_14)
  have e: "error_a c14_3 = Some (the (error_a c14_3))" by (simp add: c14_3_def)
  have v: "combinedPercent f14_7 = 0"
    "combinedPercent (toFuzzed c14_3 (the (error_a c14_3))) = 1429 / 50"
    by (simp_all add: combinedPercent_def toFuzzed_def f14_7_def c14_3_def)
  note d = alts_deduplicated[OF alts_14_14]
  from d m e
  have "\<exists>f \<in> set [f14_7]. (width f, height f) = effective c14_3
          \<and> combinedPercent f \<le> combinedPercent (toFuzzed c14_3 (the (error_a c14_3)))"
    by blast
  moreover from d
  have "\<exists>c \<in> set (tl (sortedCandidates ?o)). \<exists>e. error_a c = Some e \<and> f14_7 = toFuzzed c e"
    by simp
  ultimately show ?thesis using alts_14_14 m v by simp
qed

text \<open>
  C8: for width 796, height 1134, type range and tolerance 2 the ratio is 398:567, and a
  \<^verbatim>\<open>fuzzed\<close> candidate is returned whose two \<^verbatim>\<open>diff\<close> errors are at most 2.
\<close>

theorem scenario_796_1134:
  "ratio (fuzzRatio \<lparr>width = 796, height = 1134, type_o = Range, tolerance = 2,
                     allowedRatios = None\<rparr>) = \<lparr>width = 398, height = 567\<rparr>
   \<and> (\<exists>f. fuzzed (fuzzRatio \<lparr>width = 796, height = 1134, type_o = Range, tolerance = 2,
                             allowedRatios = None\<rparr>) = Some f
          \<and> diff (ewidth (error f)) \<le> 2 \<and> diff (eheight (error f)) \<le> 2)"
proof -
  let ?o = "\<lparr>width = 796, height = 1134, type_o = Range, tolerance = 2,
             allowedRatios = None\<rparr>"
  have "ratio (fuzzRatio ?o) = \<lparr>width = 398, height = 567\<rparr>"
    by (simp add: ratio_fuzzRatio getGcd_796_1134)
  moreover from fuzzed_796_1134 obtain f where f: "fuzzed (fuzzRatio ?o) = Some f" by blast
  from surfaced_within_tolerance[OF fuzzed_surfaced[OF f]]
  have "diff (ewidth (error f)) \<le> 2 \<and> diff (eheight (error f)) \<le> 2" by simp
  ultimately show ?thesis using f by blast
qed

text \<open>
  C9: the \<^verbatim>\<open>ratio\<close> field depends on width and height only: two calls that agree on
  them return the same \<^verbatim>\<open>ratio\<close>, whatever their type, tolerance and allow-list.
\<close>

theorem ratio_depends_on_dimensions_only:
  assumes "width o1 = width o2" "height o1 = height o2"
  shows "ratio (fuzzRatio o1) = ratio (fuzzRatio o2)"
  using assms by (simp add: ratio_fuzzRatio)

theorem ratio_depends_on_dimensions_only_witness:
  "ratio (fuzzRatio \<lparr>width = 796, height = 1134, type_o = Range, tolerance = 2,
                     allowedRatios = None\<rparr>)
   = ratio (fuzzRatio \<lparr>width = 796, height = 1134, type_o = Percent, tolerance = 50,
                       allowedRatios = Some [\<lparr>width = 16, height = 9\<rparr>]\<rparr>)"
  using ratio_depends_on_dimensions_only[of
      "\<lparr>width = 796, height = 1134, type_o = Range, tolerance = 2, allowedRatios = None\<rparr>"
      "\<lparr>width = 796, height = 1134, type_o = Percent, tolerance = 50,
        allowedRatios = Some [\<lparr>width = 16, height = 9\<rparr>]\<rparr>"]
  by simp

text \<open>
  C10, as amended: the recursion of \<^verbatim>\<open>getGcd\<close> ends on all arguments (every pair is in
  the accessible part of its call relation); on non-negative integers its second argument
  becomes \<open>a mod b\<close>, strictly below \<open>b\<close>, and the value returned is the GCD. The divisor
  loop runs once for each integer from 2 to the floor of half the smaller dimension. For
  an array limit \<open>limit\<close>, \<^verbatim>\<open>fuzzRatio\<close> on positive integer dimensions below \<open>2 ^ 53\<close>
  returns a Result, the one computed by the definitions without a limit, whenever twice
  the number of divisors is at most \<open>limit\<close>; it raises \<^verbatim>\<open>RangeError\<close> when the number of
  divisors exceeds \<open>limit\<close>; and whenever it returns, it returns that Result. The bound
  \<open>2 ^ 53\<close> keeps the program's dimensions and quotients exact integers; the embedding,
  over the rationals, needs no such bound.
\<close>

theorem fuzzRatio_returns_within_limits:
  "getGcd_dom (left, right)
   \<and> (0 < b \<longrightarrow> js_rem (of_nat a) (of_nat b) = of_nat (a mod b) \<and> a mod b < b)
   \<and> getGcd (of_nat a) (of_nat b) = of_nat (gcd a b)
   \<and> length (getDivisors left right) = nat (\<lfloor>min left right / 2\<rfloor> - 1)
   \<and> (0 < w \<and> w < 2 ^ 53 \<and> 0 < h \<and> h < 2 ^ 53
        \<and> width options = of_nat w \<and> height options = of_nat h
        \<and> 2 * (min w h div 2 - 1) \<le> limit \<longrightarrow>
        fuzzRatio_checked limit options = Inr (fuzzRatio options))
   \<and> (limit < length (getDivisors (width options) (height options)) \<longrightarrow>
        fuzzRatio_checked limit options = Inl RangeError)
   \<and> (fuzzRatio_checked limit options = Inr res \<longrightarrow> res = fuzzRatio options)"
proof -
  have "js_rem (of_nat a) (of_nat b) = of_nat (a mod b) \<and> a mod b < b" if "0 < b"
    using that by (simp add: js_rem_of_nat)
  moreover have "fuzzRatio_checked limit options = Inr (fuzzRatio options)"
    if "0 < w \<and> w < 2 ^ 53 \<and> 0 < h \<and> h < 2 ^ 53
        \<and> width options = of_nat w \<and> height options = of_nat h
        \<and> 2 * (min w h div 2 - 1) \<le> limit"
  proof (rule fuzzRatio_checked_returns)
    from that show "2 * length (getDivisors (width options) (height options)) \<le> limit"
      by (simp add: length_getDivisors_of_nat)
  qed
  moreover have "fuzzRatio_checked limit options = Inl RangeError"
    if "limit < length (getDivisors (width options) (height options))"
    using that by (rule fuzzRatio_checked_raises)
  moreover have "res = fuzzRatio options" if "fuzzRatio_checked limit options = Inr res"
    using that by (rule fuzzRatio_checked_Inr)
  ultimately show ?thesis
    using getGcd_dom_all[of left right] getGcd_of_nat[of a b] length_getDivisors[of left right]
    by blast
qed

theorem fuzzRatio_returns_within_limits_witness:
  "getGcd_dom (796, 1134)
   \<and> (0::nat) < 1134 \<and> js_rem 796 1134 = 796 \<and> (796::nat) mod 1134 < 1134
   \<and> getGcd 796 1134 = 2
   \<and> length (getDivisors 796 1134) = 397
   \<and> (0::nat) < 13 \<and> (13::nat) < 2 ^ 53 \<and> (0::nat) < 9 \<and> (9::nat) < 2 ^ 53
   \<and> 2 * (min (13::nat) 9 div 2 - 1) \<le> 4294967295
   \<and> fuzzRatio_checked 4294967295
        \<lparr>width = 13, height = 9, type_o = Range, tolerance = 1, allowedRatios = None\<rparr>
      = Inr (fuzzRatio \<lparr>width = 13, height = 9, type_o = Range, tolerance = 1,
                        allowedRatios = None\<rparr>)
   \<and> (100000000::nat) < length (getDivisors 300000000 300000000)
   \<and> fuzzRatio_checked 100000000
        \<lparr>width = 300000000, height = 300000000, type_o = Range, tolerance = 1,
          allowedRatios = None\<rparr>
      = Inl RangeError"
proof -
  have g: "gcd (796::nat) 1134 = 2" by code_simp
  have l: "(100000000::nat) < length (getDivisors 300000000 300000000)"
    by (simp add: length_getDivisors)
  from fuzzRatio_returns_within_limits[of 796 1134 1134 796 13 9
      "\<lparr>width = 13, height = 9, type_o = Range, tolerance = 1, allowedRatios = None\<rparr>"
      4294967295
      "fuzzRatio \<lparr>width = 13, height = 9, type_o = Range, tolerance = 1,
                   allowedRatios = None\<rparr>"]
    fuzzRatio_returns_within_limits[of 796 1134 1134 796 13 9
      "\<lparr>width = 300000000, height = 300000000, type_o = Range, tolerance = 1,
        allowedRatios = None\<rparr>" 100000000]
    l
  show ?thesis by (simp add: g)
qed

text \<open>
  C10 as stated fails: for the positive integers 10000000000 by 10000000000 the divisor
  loop has 4999999999 elements to push, more than the \<open>2 ^ 32 - 1\<close> an array can hold,
  and \<^verbatim>\<open>divs.push\<close> raises \<^verbatim>\<open>RangeError\<close>.
\<close>

theorem fuzzRatio_raises_on_large_dimensions:
  "fuzzRatio_checked 4294967295
     \<lparr>width = 10000000000, height = 10000000000, type_o = Range, tolerance = 2,
       allowedRatios = None\<rparr>
   = Inl RangeError"
  by (rule fuzzRatio_checked_raises) (simp add: length_getDivisors)

end
